theory Spec2Isabelle
  imports Main
begin

section \<open>The logger package of postinit\<close>

text \<open>
  The package \<^verbatim>\<open>logger\<close> keeps two package-level variables, \<^verbatim>\<open>logger\<close> (a
  \<^verbatim>\<open>Logger\<close> whose \<^verbatim>\<open>instance\<close> string is empty until \<^verbatim>\<open>Init\<close> has run) and
  \<^verbatim>\<open>chann\<close> (a slice of channels, one per message that arrived too early). The model
  is a state record that every operation takes and returns. Channels are references in
  Go, so they live in a store (\<open>heap\<close>, a list indexed by address) and \<open>chann\<close> holds
  addresses. What \<^verbatim>\<open>fmt\<close> writes is kept as the list of writes, one element per call
  of \<^verbatim>\<open>fmt.Println\<close> or \<^verbatim>\<open>fmt.Printf\<close>. The field \<open>wg\<close> is the counter of the
  \<^verbatim>\<open>sync.WaitGroup\<close> that the argument of \<^verbatim>\<open>Init\<close> points to.

  \<^verbatim>\<open>time.Sleep\<close> has no counterpart: the model has no clock.
\<close>

subsection \<open>Data\<close>

record logDetail =
  message :: string

record Logger =
  instance' :: string

text \<open>A channel of the Go runtime: the buffered values, the capacity given to
  \<^verbatim>\<open>make\<close>, and whether \<^verbatim>\<open>close\<close> has been applied.\<close>

record chan =
  ch_buf :: "logDetail list"
  ch_cap :: nat
  ch_closed :: bool

record state =
  logger :: Logger
  chann :: "nat list"
  heap :: "chan list"
  stdout :: "string list"
  wg :: int

text \<open>A goroutine that does not return: it panics, or it waits on a channel for
  ever.\<close>

datatype fault = Panic string | Blocked

text \<open>The zero values Go gives to the package variables, and to a
  \<^verbatim>\<open>var wg sync.WaitGroup\<close>.\<close>

definition initial :: state where
  "initial = \<lparr>logger = \<lparr>instance' = []\<rparr>, chann = [], heap = [], stdout = [], wg = 0\<rparr>"

subsection \<open>Channel operations\<close>

text \<open>\<^verbatim>\<open>make(chan logDetail, n)\<close> allocates a fresh, empty, open channel. Its address is
  the next free index of the store.\<close>

definition make_chan :: "nat \<Rightarrow> state \<Rightarrow> nat \<times> state" where
  "make_chan n s =
     (length (heap s),
      s\<lparr>heap := heap s @ [\<lparr>ch_buf = [], ch_cap = n, ch_closed = False\<rparr>]\<rparr>)"

text \<open>\<^verbatim>\<open>ch <- v\<close> on the goroutine's own: no receiver is waiting, so a send goes through
  only into free buffer space. An address outside the store stands for the nil channel,
  on which a send waits for ever.\<close>

definition chan_send :: "nat \<Rightarrow> logDetail \<Rightarrow> state \<Rightarrow> fault + state" where
  "chan_send a v s =
     (if length (heap s) \<le> a then Inl Blocked
      else let c = heap s ! a in
        if ch_closed c then Inl (Panic ''send on closed channel'')
        else if length (ch_buf c) < ch_cap c
          then Inr (s\<lparr>heap := (heap s)[a := c\<lparr>ch_buf := ch_buf c @ [v]\<rparr>]\<rparr>)
        else Inl Blocked)"

text \<open>\<^verbatim>\<open><-ch\<close>: the oldest buffered value; on an empty closed channel the zero value;
  on an empty open channel (no sender is waiting) or on nil the goroutine waits for
  ever.\<close>

definition chan_recv :: "nat \<Rightarrow> state \<Rightarrow> fault + (logDetail \<times> state)" where
  "chan_recv a s =
     (if length (heap s) \<le> a then Inl Blocked
      else let c = heap s ! a in
        case ch_buf c of
          v # rest \<Rightarrow> Inr (v, s\<lparr>heap := (heap s)[a := c\<lparr>ch_buf := rest\<rparr>]\<rparr>)
        | [] \<Rightarrow> if ch_closed c then Inr (\<lparr>message = []\<rparr>, s) else Inl Blocked)"

text \<open>\<^verbatim>\<open>close(ch)\<close> panics on nil and on a channel that is closed already.\<close>

definition chan_close :: "nat \<Rightarrow> state \<Rightarrow> fault + state" where
  "chan_close a s =
     (if length (heap s) \<le> a then Inl (Panic ''close of nil channel'')
      else let c = heap s ! a in
        if ch_closed c then Inl (Panic ''close of closed channel'')
        else Inr (s\<lparr>heap := (heap s)[a := c\<lparr>ch_closed := True\<rparr>]\<rparr>))"

subsection \<open>Log and SafeLog\<close>

text \<open>The line that \<^verbatim>\<open>fmt.Printf("got message to log `%v`\n", msg)\<close> writes.\<close>

definition log_line :: "string \<Rightarrow> string" where
  "log_line msg = ''got message to log `'' @ msg @ ''`\<newline>''"

text \<open>The error of \<^verbatim>\<open>errors.New("logger instance not initialized")\<close>, by its text.
  A Go \<^verbatim>\<open>error\<close> is \<open>None\<close> for nil and \<open>Some text\<close> otherwise.\<close>

definition NotInitialized :: string where
  "NotInitialized = ''logger instance not initialized''"

text \<open>The test \<^verbatim>\<open>len(logger.instance) > 0\<close> of \<^verbatim>\<open>Log\<close> and \<^verbatim>\<open>SafeLog\<close>.\<close>

definition ready :: "state \<Rightarrow> bool" where
  "ready s = (0 < length (instance' (logger s)))"

definition Log :: "string \<Rightarrow> state \<Rightarrow> string option \<times> state" where
  "Log msg s =
     (if 0 < length (instance' (logger s))
      then (None, s\<lparr>stdout := stdout s @ [log_line msg]\<rparr>)
      else (Some NotInitialized, s))"

definition SafeLog :: "string \<Rightarrow> state \<Rightarrow> fault + (string option \<times> state)" where
  "SafeLog msg s =
     (if 0 < length (instance' (logger s)) then Inr (Log msg s)
      else let ld = \<lparr>message = msg\<rparr>;
               (ch, s1) = make_chan 1 s
           in case chan_send ch ld s1 of
                Inl f \<Rightarrow> Inl f
              | Inr s2 \<Rightarrow> Inr (None, s2\<lparr>chann := chann s2 @ [ch]\<rparr>))"

subsection \<open>Init\<close>

text \<open>The loop \<^verbatim>\<open>for _, v := range chann\<close> of \<^verbatim>\<open>Init\<close>. The range expression is
  evaluated once, so the loop runs over the addresses it is given. The error that
  \<^verbatim>\<open>Log\<close> returns is dropped, as in the source.\<close>

fun drain :: "nat list \<Rightarrow> state \<Rightarrow> fault + state" where
  "drain [] s = Inr s"
| "drain (v # vs) s =
     (case chan_recv v s of
        Inl f \<Rightarrow> Inl f
      | Inr (val, s1) \<Rightarrow>
          (case chan_close v (snd (Log (message val) s1)) of
             Inl f \<Rightarrow> Inl f
           | Inr s2 \<Rightarrow> drain vs s2))"

text \<open>\<^verbatim>\<open>wg.Done()\<close> is \<^verbatim>\<open>wg.Add(-1)\<close>, which panics when the counter would become
  negative. The argument of \<^verbatim>\<open>Init\<close> is taken to point to a \<^verbatim>\<open>WaitGroup\<close>, as it does
  in \<^verbatim>\<open>main\<close>; a nil pointer is not part of the model.\<close>

definition wg_Add :: "int \<Rightarrow> state \<Rightarrow> fault + state" where
  "wg_Add d s =
     (if wg s + d < 0 then Inl (Panic ''sync: negative WaitGroup counter'')
      else Inr (s\<lparr>wg := wg s + d\<rparr>))"

definition wg_Done :: "state \<Rightarrow> fault + state" where
  "wg_Done s = wg_Add (- 1) s"

definition Init :: "state \<Rightarrow> fault + state" where
  "Init s =
     (let s1 = s\<lparr>stdout := stdout s @ [''Init\<newline>'']\<rparr>;
          s2 = s1\<lparr>logger := \<lparr>instance' = ''Logger''\<rparr>\<rparr>
      in case drain (chann s2) s2 of
           Inl f \<Rightarrow> Inl f
         | Inr s3 \<Rightarrow> wg_Done s3)"

subsection \<open>Sequences of calls\<close>

text \<open>The three exported functions as operations on the state, and a sequence of
  calls made one after the other, each running to its end before the next starts. A
  fault ends the run: a panic ends the process, and a blocked goroutine makes no further
  call.\<close>

datatype op = OpLog string | OpSafeLog string | OpInit

fun exec :: "op \<Rightarrow> state \<Rightarrow> fault + state" where
  "exec (OpLog msg) s = Inr (snd (Log msg s))"
| "exec (OpSafeLog msg) s =
     (case SafeLog msg s of Inl f \<Rightarrow> Inl f | Inr (err, s') \<Rightarrow> Inr s')"
| "exec OpInit s = Init s"

fun run :: "op list \<Rightarrow> state \<Rightarrow> fault + state" where
  "run [] s = Inr s"
| "run (c # cs) s = (case exec c s of Inl f \<Rightarrow> Inl f | Inr s' \<Rightarrow> run cs s')"

text \<open>The payloads of the \<^verbatim>\<open>SafeLog\<close> calls of a sequence, and of all its calls, in
  call order.\<close>

fun deferred :: "op list \<Rightarrow> string list" where
  "deferred [] = []"
| "deferred (OpSafeLog msg # cs) = msg # deferred cs"
| "deferred (c # cs) = deferred cs"

fun payloads :: "op list \<Rightarrow> string list" where
  "payloads [] = []"
| "payloads (OpLog msg # cs) = msg # payloads cs"
| "payloads (OpSafeLog msg # cs) = msg # payloads cs"
| "payloads (OpInit # cs) = payloads cs"

text \<open>The two shapes a channel of \<open>chann\<close> takes: holding its one message, and
  received from and closed.\<close>

definition queued :: "string \<Rightarrow> chan" where
  "queued msg = \<lparr>ch_buf = [\<lparr>message = msg\<rparr>], ch_cap = 1, ch_closed = False\<rparr>"

definition drained :: chan where
  "drained = \<lparr>ch_buf = [], ch_cap = 1, ch_closed = True\<rparr>"

text \<open>The \<open>n\<close> addresses from \<open>k\<close> on.\<close>

fun addrs :: "nat \<Rightarrow> nat \<Rightarrow> nat list" where
  "addrs k 0 = []"
| "addrs k (Suc n) = k # addrs (Suc k) n"

subsection \<open>The callers of package prog\<close>

definition Caller1 :: "string \<Rightarrow> state \<Rightarrow> string option \<times> state" where
  "Caller1 msg s = Log msg s"

definition Caller2 :: "string \<Rightarrow> state \<Rightarrow> fault + (string option \<times> state)" where
  "Caller2 msg s = SafeLog msg s"

subsection \<open>main\<close>

text \<open>What the verb \<^verbatim>\<open>%v\<close> writes for an \<^verbatim>\<open>int\<close>: its decimal digits, with a minus
  sign for a negative number.\<close>

function utoa :: "nat \<Rightarrow> string" where
  "utoa n = (if n < 10 then [''0123456789'' ! n]
             else utoa (n div 10) @ [''0123456789'' ! (n mod 10)])"
  by pat_completeness auto
termination
  by (relation "measure (\<lambda>n. n)") auto

declare utoa.simps [simp del]

definition itoa :: "int \<Rightarrow> string" where
  "itoa i = (if i < 0 then CHR ''-'' # utoa (nat (- i)) else utoa (nat i))"

text \<open>One round of the loop of \<^verbatim>\<open>main\<close>: a call of \<^verbatim>\<open>Caller1\<close> and a call of
  \<^verbatim>\<open>Caller2\<close>, each followed by the report of its error when it is not nil.\<close>

definition loop_body :: "int \<Rightarrow> state \<Rightarrow> fault + state" where
  "loop_body i s =
     (let (err1, s1) = Caller1 (''func: caller1 value-'' @ itoa (i + 1)) s;
          s2 = (case err1 of
                  None \<Rightarrow> s1
                | Some e \<Rightarrow> s1\<lparr>stdout := stdout s1 @
                    [''Error on caller1 '' @ itoa (i + 1) @ '': '' @ e @ ''\<newline>'']\<rparr>)
      in case Caller2 (''func: caller2 value-'' @ itoa (i + 1)) s2 of
           Inl f \<Rightarrow> Inl f
         | Inr (err2, s3) \<Rightarrow>
             Inr (case err2 of
                    None \<Rightarrow> s3
                  | Some e \<Rightarrow> s3\<lparr>stdout := stdout s3 @
                      [''Error on caller2 '' @ itoa (i + 1) @ '': '' @ e @ ''\<newline>'']\<rparr>))"

text \<open>\<^verbatim>\<open>for i := 0; i < 5; i++\<close>, entered at \<open>i\<close>.\<close>

function main_loop :: "int \<Rightarrow> state \<Rightarrow> fault + state" where
  "main_loop i s =
     (if i < 5
      then (case loop_body i s of Inl f \<Rightarrow> Inl f | Inr s' \<Rightarrow> main_loop (i + 1) s')
      else Inr s)"
  by pat_completeness auto
termination
  by (relation "measure (\<lambda>(i, s). nat (5 - i))") auto

declare main_loop.simps [simp del]

text \<open>\<^verbatim>\<open>wg.Wait()\<close> returns when the counter is zero. When it is not, and no other
  goroutine is left to call \<^verbatim>\<open>Done\<close>, it waits for ever.\<close>

definition wg_Wait :: "state \<Rightarrow> fault + state" where
  "wg_Wait s = (if wg s = 0 then Inr s else Inl Blocked)"

text \<open>\<^verbatim>\<open>main\<close> starts \<^verbatim>\<open>Init\<close> as a goroutine, and \<^verbatim>\<open>Init\<close> sleeps five seconds before
  it touches the package variables, while the loop makes its ten calls at once. The
  model has no clock and takes the order that this timing produces: the loop first, then
  the body of \<^verbatim>\<open>Init\<close>, then the return of \<^verbatim>\<open>wg.Wait\<close>.\<close>

definition main :: "fault + state" where
  "main =
     (case wg_Add 1 initial of
        Inl f \<Rightarrow> Inl f
      | Inr s0 \<Rightarrow>
          (case main_loop 0 s0 of
             Inl f \<Rightarrow> Inl f
           | Inr s1 \<Rightarrow>
               (case Init s1 of
                  Inl f \<Rightarrow> Inl f
                | Inr s2 \<Rightarrow> wg_Wait s2)))"

subsection \<open>SafeLog in steps\<close>

text \<open>
  \<^verbatim>\<open>logger\<close> and \<^verbatim>\<open>chann\<close> are plain package variables: the source takes no lock and
  uses no atomic operation. To follow calls of \<^verbatim>\<open>SafeLog\<close> that overlap, its body is cut
  into the steps between which another goroutine can run. The statement
  \<^verbatim>\<open>chann = append(chann, ch)\<close> is two of them: it reads \<^verbatim>\<open>chann\<close>, and it writes the
  extended slice back.

  The position of a goroutine inside \<^verbatim>\<open>SafeLog\<close>:
  \<^item> \<open>AtCheck\<close>: before the test \<^verbatim>\<open>len(logger.instance) > 0\<close>;
  \<^item> \<open>AtLog\<close>: the test was true, before \<^verbatim>\<open>return Log(msg)\<close>;
  \<^item> \<open>AtMake\<close>: the test was false, before the channel is made and sent to;
  \<^item> \<open>AtLoad ch\<close>: before \<^verbatim>\<open>chann\<close> is read for \<^verbatim>\<open>append(chann, ch)\<close>;
  \<^item> \<open>AtStore ch old\<close>: \<^verbatim>\<open>chann\<close> was read as \<open>old\<close>, before the assignment;
  \<^item> \<open>Returned err\<close>: the call has returned \<open>err\<close>.
\<close>

datatype pc = AtCheck | AtLog | AtMake | AtLoad nat | AtStore nat "nat list"
  | Returned "string option"

fun step :: "string \<Rightarrow> pc \<Rightarrow> state \<Rightarrow> fault + (pc \<times> state)" where
  "step msg AtCheck s =
     Inr (if 0 < length (instance' (logger s)) then AtLog else AtMake, s)"
| "step msg AtLog s = (let (err, s') = Log msg s in Inr (Returned err, s'))"
| "step msg AtMake s =
     (let ld = \<lparr>message = msg\<rparr>;
          (ch, s1) = make_chan 1 s
      in case chan_send ch ld s1 of
           Inl f \<Rightarrow> Inl f
         | Inr s2 \<Rightarrow> Inr (AtLoad ch, s2))"
| "step msg (AtLoad ch) s = Inr (AtStore ch (chann s), s)"
| "step msg (AtStore ch old) s = Inr (Returned None, s\<lparr>chann := old @ [ch]\<rparr>)"
| "step msg (Returned err) s = Inr (Returned err, s)"

text \<open>Goroutines that each run one call of \<^verbatim>\<open>SafeLog\<close>, with the message and the
  position of each, over the shared state. A schedule names the goroutine that makes
  the next step.\<close>

type_synonym config = "(string \<times> pc) list \<times> state"

definition sched_step :: "nat \<Rightarrow> config \<Rightarrow> fault + config" where
  "sched_step i cfg =
     (let (ts, s) = cfg in
      if length ts \<le> i then Inr cfg
      else let (msg, p) = ts ! i in
        case step msg p s of
          Inl f \<Rightarrow> Inl f
        | Inr (p', s') \<Rightarrow> Inr (ts[i := (msg, p')], s'))"

fun run_sched :: "nat list \<Rightarrow> config \<Rightarrow> fault + config" where
  "run_sched [] cfg = Inr cfg"
| "run_sched (i # is) cfg =
     (case sched_step i cfg of Inl f \<Rightarrow> Inl f | Inr cfg' \<Rightarrow> run_sched is cfg')"

text \<open>The goroutine of \<^verbatim>\<open>Init\<close> beside them. \<open>StepOf i\<close> is one step of the \<open>i\<close>-th
  call of \<^verbatim>\<open>SafeLog\<close>; \<open>InitBody\<close> is the body of \<^verbatim>\<open>Init\<close> after its sleep, from
  \<^verbatim>\<open>fmt.Println("Init")\<close> to \<^verbatim>\<open>wg.Done()\<close>, with no step of another goroutine in
  between.\<close>

datatype event = StepOf nat | InitBody

fun run_events :: "event list \<Rightarrow> config \<Rightarrow> fault + config" where
  "run_events [] cfg = Inr cfg"
| "run_events (StepOf i # es) cfg =
     (case sched_step i cfg of Inl f \<Rightarrow> Inl f | Inr cfg' \<Rightarrow> run_events es cfg')"
| "run_events (InitBody # es) cfg =
     (case Init (snd cfg) of Inl f \<Rightarrow> Inl f | Inr s' \<Rightarrow> run_events es (fst cfg, s'))"

section \<open>Single calls\<close>

lemma ready_update [simp]:
  "ready (s\<lparr>heap := h\<rparr>) = ready s"
  "ready (s\<lparr>chann := c\<rparr>) = ready s"
  "ready (s\<lparr>stdout := out\<rparr>) = ready s"
  "ready (s\<lparr>wg := w\<rparr>) = ready s"
  by (simp_all add: ready_def)

lemma not_ready_initial [simp]: "\<not> ready initial"
  by (simp add: ready_def initial_def)

lemma Log_not_ready: "\<not> ready s \<Longrightarrow> Log msg s = (Some NotInitialized, s)"
  by (simp add: Log_def ready_def)

lemma Log_ready:
  "ready s \<Longrightarrow> Log msg s = (None, s\<lparr>stdout := stdout s @ [log_line msg]\<rparr>)"
  by (simp add: Log_def ready_def)

lemma SafeLog_not_ready:
  "\<not> ready s \<Longrightarrow> SafeLog msg s =
     Inr (None, s\<lparr>heap := heap s @ [queued msg], chann := chann s @ [length (heap s)]\<rparr>)"
  by (simp add: SafeLog_def ready_def make_chan_def chan_send_def Let_def queued_def)

lemma SafeLog_ready: "ready s \<Longrightarrow> SafeLog msg s = Inr (Log msg s)"
  by (simp add: SafeLog_def ready_def)

text \<open>
  \<^bold>\<open>C2.\<close> While \<^verbatim>\<open>len(logger.instance) > 0\<close> is false, \<^verbatim>\<open>Log\<close> returns the error
  "logger instance not initialized" and leaves the whole state as it was: nothing is
  printed, and neither the queue nor the channels change.
\<close>

theorem Log_before_Init_fails:
  "\<not> ready s \<Longrightarrow> Log msg s = (Some ''logger instance not initialized'', s)"
  by (simp add: Log_def ready_def NotInitialized_def)

theorem Log_before_Init_fails_witness:
  "\<not> ready initial \<and>
   Log ''hello'' initial = (Some ''logger instance not initialized'', initial)"
proof -
  have h: "\<not> ready initial" by simp
  from Log_before_Init_fails [OF h, of "''hello''"] h show ?thesis by simp
qed

text \<open>
  \<^bold>\<open>C3.\<close> When \<^verbatim>\<open>logger.instance\<close> is not empty, \<^verbatim>\<open>SafeLog\<close> is \<^verbatim>\<open>Log\<close>: it returns
  what \<^verbatim>\<open>Log\<close> returns on the same state, which is the outcome of the print (nil, with
  the line written), and it leaves \<open>chann\<close> and the channel store untouched.
\<close>

theorem SafeLog_ready_is_Log:
  "ready s \<Longrightarrow>
     SafeLog msg s = Inr (Log msg s) \<and>
     Log msg s = (None, s\<lparr>stdout := stdout s @ [log_line msg]\<rparr>) \<and>
     chann (snd (Log msg s)) = chann s \<and>
     heap (snd (Log msg s)) = heap s"
  by (simp add: SafeLog_def Log_def ready_def)

theorem SafeLog_ready_is_Log_witness:
  "ready (initial\<lparr>logger := \<lparr>instance' = ''Logger''\<rparr>\<rparr>) \<and>
   SafeLog ''hello'' (initial\<lparr>logger := \<lparr>instance' = ''Logger''\<rparr>\<rparr>) =
     Inr (None, initial\<lparr>logger := \<lparr>instance' = ''Logger''\<rparr>,
                        stdout := [''got message to log `hello`\<newline>'']\<rparr>)"
proof -
  let ?s = "initial\<lparr>logger := \<lparr>instance' = ''Logger''\<rparr>\<rparr>"
  have h: "ready ?s" by (simp add: ready_def)
  from SafeLog_ready_is_Log [OF h, of "''hello''"] h show ?thesis
    by (simp add: initial_def log_line_def)
qed

text \<open>
  \<^bold>\<open>C4.\<close> While \<^verbatim>\<open>logger.instance\<close> is empty, \<^verbatim>\<open>SafeLog\<close> returns nil and its only
  effects are a new channel of capacity 1 that holds the \<^verbatim>\<open>logDetail\<close> of the message,
  and the address of that channel appended to \<open>chann\<close>. Nothing is printed.
\<close>

theorem SafeLog_before_Init_enqueues:
  "\<not> ready s \<Longrightarrow>
     SafeLog msg s =
       Inr (None,
            s\<lparr>heap := heap s @ [\<lparr>ch_buf = [\<lparr>message = msg\<rparr>], ch_cap = 1, ch_closed = False\<rparr>],
              chann := chann s @ [length (heap s)]\<rparr>)"
  by (simp add: SafeLog_def ready_def make_chan_def chan_send_def Let_def)

theorem SafeLog_before_Init_enqueues_witness:
  "\<not> ready initial \<and>
   SafeLog ''hello'' initial =
     Inr (None,
          \<lparr>logger = \<lparr>instance' = []\<rparr>, chann = [0],
           heap = [\<lparr>ch_buf = [\<lparr>message = ''hello''\<rparr>], ch_cap = 1, ch_closed = False\<rparr>],
           stdout = [], wg = 0\<rparr>)"
proof -
  have h: "\<not> ready initial" by simp
  from SafeLog_before_Init_enqueues [OF h, of "''hello''"] h show ?thesis
    by (simp add: initial_def)
qed

lemma SafeLog_returns: "\<exists>s'. SafeLog msg s = Inr (None, s')"
  by (simp add: SafeLog_def Log_def make_chan_def chan_send_def Let_def)

text \<open>
  \<^bold>\<open>C10.\<close> In every state and for every message, \<^verbatim>\<open>SafeLog\<close> returns, and what it
  returns is nil: with the logger initialized \<^verbatim>\<open>Log\<close> prints and returns nil, and
  otherwise the send into the fresh channel goes through and nil is returned.
\<close>

theorem SafeLog_always_nil: "\<exists>s'. SafeLog msg s = Inr (None, s')"
  by (rule SafeLog_returns)

section \<open>Sequences of calls and Init\<close>

lemma addrs_upt: "addrs k n = [k ..< k + n]"
  by (induction n arbitrary: k) (simp_all add: upt_conv_Cons del: upt_Suc)

lemma run_append:
  "run (xs @ ys) s = (case run xs s of Inl f \<Rightarrow> Inl f | Inr s' \<Rightarrow> run ys s')"
  by (induction xs arbitrary: s) (auto split: sum.splits)

text \<open>Before \<^verbatim>\<open>Init\<close>, a sequence of calls only grows the queue: one channel, holding
  its message, for each \<^verbatim>\<open>SafeLog\<close>.\<close>

lemma run_before_Init:
  "\<not> ready s \<Longrightarrow> OpInit \<notin> set cs \<Longrightarrow>
   run cs s = Inr (s\<lparr>chann := chann s @ addrs (length (heap s)) (length (deferred cs)),
                     heap := heap s @ map queued (deferred cs)\<rparr>)"
proof (induction cs arbitrary: s)
  case Nil
  then show ?case by simp
next
  case (Cons c cs)
  show ?case
  proof (cases c)
    case (OpLog msg)
    with Cons show ?thesis by (simp add: Log_not_ready)
  next
    case (OpSafeLog msg)
    let ?s1 = "s\<lparr>heap := heap s @ [queued msg], chann := chann s @ [length (heap s)]\<rparr>"
    have nr: "\<not> ready ?s1" using Cons.prems by simp
    have ex: "exec c s = Inr ?s1"
      using OpSafeLog Cons.prems(1) by (simp add: SafeLog_not_ready)
    have "run cs ?s1 =
            Inr (?s1\<lparr>chann := chann ?s1 @ addrs (length (heap ?s1)) (length (deferred cs)),
                     heap := heap ?s1 @ map queued (deferred cs)\<rparr>)"
      using Cons.IH [OF nr] Cons.prems by simp
    also have "\<dots> =
            Inr (s\<lparr>chann := chann s @ addrs (length (heap s)) (length (deferred (c # cs))),
                   heap := heap s @ map queued (deferred (c # cs))\<rparr>)"
      by (cases s) (simp add: OpSafeLog)
    finally show ?thesis using ex by simp
  next
    case OpInit
    with Cons.prems show ?thesis by simp
  qed
qed

text \<open>After \<^verbatim>\<open>Init\<close>, every call prints its line and nothing else changes.\<close>

lemma run_after_Init:
  "ready s \<Longrightarrow> OpInit \<notin> set cs \<Longrightarrow>
   run cs s = Inr (s\<lparr>stdout := stdout s @ map log_line (payloads cs)\<rparr>)"
proof (induction cs arbitrary: s)
  case Nil
  then show ?case by simp
next
  case (Cons c cs)
  then show ?case by (cases c) (simp_all add: Log_ready SafeLog_ready)
qed

text \<open>One round of the loop of \<^verbatim>\<open>Init\<close> on a channel that holds its message.\<close>

lemma drain_step:
  "ready s \<Longrightarrow> heap s = pre @ queued m # rest \<Longrightarrow>
   drain (length pre # vs) s =
   drain vs (s\<lparr>heap := (pre @ [drained]) @ rest, stdout := stdout s @ [log_line m]\<rparr>)"
  by (cases s)
     (simp add: chan_recv_def chan_close_def Log_def ready_def queued_def drained_def Let_def)

lemma drain_queued:
  "ready s \<Longrightarrow> heap s = pre @ map queued msgs @ post \<Longrightarrow>
   drain (addrs (length pre) (length msgs)) s =
     Inr (s\<lparr>heap := pre @ map (\<lambda>_. drained) msgs @ post,
            stdout := stdout s @ map log_line msgs\<rparr>)"
proof (induction msgs arbitrary: pre s)
  case Nil
  then show ?case by simp
next
  case (Cons m ms)
  let ?pre = "pre @ [drained]"
  let ?s1 = "s\<lparr>heap := ?pre @ map queued ms @ post, stdout := stdout s @ [log_line m]\<rparr>"
  have r: "ready ?s1" using Cons.prems(1) by simp
  have "drain (addrs (length pre) (length (m # ms))) s =
        drain (length pre # addrs (length ?pre) (length ms)) s"
    by simp
  also have "\<dots> = drain (addrs (length ?pre) (length ms)) ?s1"
    using drain_step [OF Cons.prems(1), of pre m "map queued ms @ post"] Cons.prems(2)
    by simp
  also have "\<dots> = Inr (?s1\<lparr>heap := ?pre @ map (\<lambda>_. drained) ms @ post,
                             stdout := stdout ?s1 @ map log_line ms\<rparr>)"
    by (rule Cons.IH [OF r]) simp
  also have "\<dots> = Inr (s\<lparr>heap := pre @ map (\<lambda>_. drained) (m # ms) @ post,
                           stdout := stdout s @ map log_line (m # ms)\<rparr>)"
    by simp
  finally show ?case .
qed

lemma Init_queued:
  assumes "heap s = pre @ map queued msgs"
    and "chann s = addrs (length pre) (length msgs)"
    and "0 < wg s"
  shows "Init s = Inr (s\<lparr>logger := \<lparr>instance' = ''Logger''\<rparr>,
                         heap := pre @ map (\<lambda>_. drained) msgs,
                         stdout := stdout s @ ''Init\<newline>'' # map log_line msgs,
                         wg := wg s - 1\<rparr>)"
proof -
  let ?s2 = "s\<lparr>stdout := stdout s @ [''Init\<newline>''],
               logger := \<lparr>instance' = ''Logger''\<rparr>\<rparr>"
  have r: "ready ?s2" by (simp add: ready_def)
  have h: "heap ?s2 = pre @ map queued msgs @ []" using assms(1) by simp
  have "drain (addrs (length pre) (length msgs)) ?s2 =
        Inr (?s2\<lparr>heap := pre @ map (\<lambda>_. drained) msgs @ [],
                 stdout := stdout ?s2 @ map log_line msgs\<rparr>)"
    by (rule drain_queued [OF r h])
  then have "drain (chann ?s2) ?s2 =
        Inr (?s2\<lparr>heap := pre @ map (\<lambda>_. drained) msgs,
                 stdout := stdout ?s2 @ map log_line msgs\<rparr>)"
    using assms(2) by simp
  then show ?thesis using assms(3)
    by (cases s) (simp add: Init_def Let_def wg_Done_def wg_Add_def)
qed

lemma run_then_Init:
  assumes "\<not> ready s" and "chann s = []" and "0 < wg s" and "OpInit \<notin> set cs"
  shows "run (cs @ [OpInit]) s =
           Inr (s\<lparr>logger := \<lparr>instance' = ''Logger''\<rparr>,
                  chann := addrs (length (heap s)) (length (deferred cs)),
                  heap := heap s @ map (\<lambda>_. drained) (deferred cs),
                  stdout := stdout s @ ''Init\<newline>'' # map log_line (deferred cs),
                  wg := wg s - 1\<rparr>)"
proof -
  let ?s1 = "s\<lparr>chann := chann s @ addrs (length (heap s)) (length (deferred cs)),
               heap := heap s @ map queued (deferred cs)\<rparr>"
  have r1: "run cs s = Inr ?s1" by (rule run_before_Init [OF assms(1,4)])
  have "Init ?s1 = Inr (?s1\<lparr>logger := \<lparr>instance' = ''Logger''\<rparr>,
                         heap := heap s @ map (\<lambda>_. drained) (deferred cs),
                         stdout := stdout ?s1 @ ''Init\<newline>'' # map log_line (deferred cs),
                         wg := wg ?s1 - 1\<rparr>)"
    by (rule Init_queued) (simp_all add: assms)
  then show ?thesis using r1 assms(2) by (cases s) (simp add: run_append)
qed

lemma deferred_SafeLogs [simp]: "deferred (map OpSafeLog msgs) = msgs"
  by (induction msgs) simp_all

text \<open>
  \<^bold>\<open>C1.\<close> The claim is that any N calls of \<^verbatim>\<open>SafeLog\<close> made before initialization
  lead to exactly N lines of \<^verbatim>\<open>Log\<close> once \<^verbatim>\<open>Init\<close> has run. It fails for calls that
  overlap. Two goroutines call \<^verbatim>\<open>SafeLog("x")\<close> and \<^verbatim>\<open>SafeLog("y")\<close> on the initial
  state and take their steps in turn: both find the logger uninitialized, both fill a
  channel, both read the empty \<^verbatim>\<open>chann\<close>; then the call for "y" assigns its slice and
  the call for "x" assigns its own over it. Both calls return nil. \<^verbatim>\<open>Init\<close> runs
  afterwards and prints one line of \<^verbatim>\<open>Log\<close>, for "x"; the channel of "y" keeps its
  message.
\<close>

theorem overlapping_calls_replayed_once:
  "run_events [StepOf 0, StepOf 1, StepOf 0, StepOf 1, StepOf 0, StepOf 1, StepOf 1, StepOf 0,
               InitBody]
     ([(''x'', AtCheck), (''y'', AtCheck)], initial\<lparr>wg := 1\<rparr>) =
   Inr ([(''x'', Returned None), (''y'', Returned None)],
        \<lparr>logger = \<lparr>instance' = ''Logger''\<rparr>, chann = [0],
         heap = [drained, queued ''y''],
         stdout = [''Init\<newline>'', ''got message to log `x`\<newline>''],
         wg = 0\<rparr>)"
  by (simp add: sched_step_def initial_def make_chan_def chan_send_def chan_recv_def
      chan_close_def Init_def Log_def wg_Done_def wg_Add_def queued_def drained_def
      log_line_def Let_def)

text \<open>
  \<^bold>\<open>C1, as the code has it.\<close> Take any sequence of calls of \<^verbatim>\<open>Log\<close> and \<^verbatim>\<open>SafeLog\<close>
  made one after the other, each returning before the next starts, on an uninitialized
  logger with an empty queue, and let \<^verbatim>\<open>Init\<close> run after them with a \<^verbatim>\<open>WaitGroup\<close>
  counter that is positive (as after \<^verbatim>\<open>wg.Add(1)\<close>). Then \<^verbatim>\<open>Init\<close> returns, and what
  has been printed since the start is the line of \<^verbatim>\<open>Init\<close> followed by exactly one
  \<^verbatim>\<open>Log\<close> line for each \<^verbatim>\<open>SafeLog\<close> call, in the order of the calls: as many lines as
  there were \<^verbatim>\<open>SafeLog\<close> calls, none missing, none twice. Calls of \<^verbatim>\<open>Log\<close> in
  between fail and print nothing; for \<open>cs = map OpSafeLog msgs\<close> the \<^verbatim>\<open>Log\<close> lines are
  those of \<open>msgs\<close>.
\<close>

theorem deferred_replayed_in_order:
  assumes "\<not> ready s" and "chann s = []" and "0 < wg s" and "OpInit \<notin> set cs"
  shows "\<exists>s'. run (cs @ [OpInit]) s = Inr s' \<and>
               stdout s' = stdout s @ ''Init\<newline>'' # map log_line (deferred cs)"
  using run_then_Init [OF assms] by simp

theorem deferred_replayed_in_order_witness:
  "\<exists>s'. run ([OpSafeLog ''a'', OpLog ''x'', OpSafeLog ''b'', OpSafeLog ''a''] @ [OpInit])
             (initial\<lparr>wg := 1\<rparr>) = Inr s' \<and>
        stdout s' = [''Init\<newline>'', ''got message to log `a`\<newline>'',
                     ''got message to log `b`\<newline>'', ''got message to log `a`\<newline>'']"
proof -
  let ?s = "initial\<lparr>wg := 1\<rparr>"
  have h: "\<not> ready ?s" "chann ?s = []" "0 < wg ?s"
    "OpInit \<notin> set [OpSafeLog ''a'', OpLog ''x'', OpSafeLog ''b'', OpSafeLog ''a'']"
    by (simp_all add: initial_def ready_def)
  from deferred_replayed_in_order [OF h] show ?thesis
    by (simp add: initial_def log_line_def)
qed

section \<open>Readiness\<close>

lemma drain_logger: "drain vs s = Inr s' \<Longrightarrow> logger s' = logger s"
proof (induction vs arbitrary: s)
  case Nil
  then show ?case by simp
next
  case (Cons v vs)
  from Cons.prems obtain val s1 s2 where
    a: "chan_recv v s = Inr (val, s1)" and
    b: "chan_close v (snd (Log (message val) s1)) = Inr s2" and
    c: "drain vs s2 = Inr s'"
    by (auto split: sum.splits)
  have "logger s1 = logger s"
    using a by (auto simp: chan_recv_def Let_def split: if_splits list.splits)
  moreover have "logger s2 = logger s1"
    using b by (auto simp: chan_close_def Log_def Let_def split: if_splits)
  ultimately show ?case using Cons.IH [OF c] by simp
qed

lemma Init_ready: "Init s = Inr s' \<Longrightarrow> ready s'"
proof -
  assume a: "Init s = Inr s'"
  let ?s2 = "s\<lparr>stdout := stdout s @ [''Init\<newline>''],
               logger := \<lparr>instance' = ''Logger''\<rparr>\<rparr>"
  from a obtain s3 where d: "drain (chann ?s2) ?s2 = Inr s3" and w: "wg_Done s3 = Inr s'"
    by (auto simp: Init_def Let_def split: sum.splits)
  have "logger s3 = \<lparr>instance' = ''Logger''\<rparr>" using drain_logger [OF d] by simp
  moreover have "logger s' = logger s3"
    using w by (auto simp: wg_Done_def wg_Add_def split: if_splits)
  ultimately show ?thesis by (simp add: ready_def)
qed

lemma exec_ready:
  "exec c s = Inr s' \<Longrightarrow> ready s' = (ready s \<or> c = OpInit)"
proof (cases c)
  case (OpLog msg)
  assume "exec c s = Inr s'"
  with OpLog show ?thesis
    by (cases "ready s") (auto simp: Log_not_ready Log_ready)
next
  case (OpSafeLog msg)
  assume "exec c s = Inr s'"
  with OpSafeLog show ?thesis
    by (cases "ready s") (auto simp: SafeLog_not_ready SafeLog_ready Log_ready)
next
  case OpInit
  assume "exec c s = Inr s'"
  with OpInit show ?thesis by (simp add: Init_ready)
qed

lemma run_ready:
  "run cs s = Inr s' \<Longrightarrow> ready s' = (ready s \<or> OpInit \<in> set cs)"
proof (induction cs arbitrary: s)
  case Nil
  then show ?case by simp
next
  case (Cons c cs)
  from Cons.prems obtain s1 where e: "exec c s = Inr s1" and r: "run cs s1 = Inr s'"
    by (auto split: sum.splits)
  from exec_ready [OF e] Cons.IH [OF r] show ?case by auto
qed

text \<open>
  \<^bold>\<open>C5.\<close> The test \<^verbatim>\<open>len(logger.instance) > 0\<close> is false in the initial state. After
  any sequence of calls of \<^verbatim>\<open>Log\<close>, \<^verbatim>\<open>SafeLog\<close> and \<^verbatim>\<open>Init\<close> it is true exactly when it
  was true before the sequence or \<^verbatim>\<open>Init\<close> is among the calls: no call makes it false
  again, nothing but \<^verbatim>\<open>Init\<close> makes it true, and after \<^verbatim>\<open>Init\<close> it is true. The loop of
  \<^verbatim>\<open>Init\<close> that replays the queue leaves it as it is, too.
\<close>

theorem ready_only_by_Init_and_for_good:
  "\<not> ready initial \<and>
   (run cs s = Inr s' \<longrightarrow> ready s' = (ready s \<or> OpInit \<in> set cs)) \<and>
   (drain vs t = Inr t' \<longrightarrow> ready t' = ready t)"
proof (intro conjI impI)
  show "\<not> ready initial" by (rule not_ready_initial)
next
  assume "run cs s = Inr s'"
  then show "ready s' = (ready s \<or> OpInit \<in> set cs)" by (rule run_ready)
next
  assume "drain vs t = Inr t'"
  then have "logger t' = logger t" by (rule drain_logger)
  then show "ready t' = ready t" by (simp add: ready_def)
qed

theorem ready_only_by_Init_and_for_good_witness:
  "run [OpLog ''a'', OpSafeLog ''b'', OpInit, OpSafeLog ''c''] (initial\<lparr>wg := 1\<rparr>) =
     Inr \<lparr>logger = \<lparr>instance' = ''Logger''\<rparr>, chann = [0],
          heap = [\<lparr>ch_buf = [], ch_cap = 1, ch_closed = True\<rparr>],
          stdout = [''Init\<newline>'', ''got message to log `b`\<newline>'',
                    ''got message to log `c`\<newline>''],
          wg = 0\<rparr> \<and>
   ready \<lparr>logger = \<lparr>instance' = ''Logger''\<rparr>, chann = [0],
          heap = [\<lparr>ch_buf = [], ch_cap = 1, ch_closed = True\<rparr>],
          stdout = [''Init\<newline>'', ''got message to log `b`\<newline>'',
                    ''got message to log `c`\<newline>''],
          wg = 0\<rparr> \<and>
   drain [0] \<lparr>logger = \<lparr>instance' = ''Logger''\<rparr>, chann = [0],
          heap = [\<lparr>ch_buf = [\<lparr>message = ''b''\<rparr>], ch_cap = 1, ch_closed = False\<rparr>],
          stdout = [], wg = 1\<rparr> =
     Inr \<lparr>logger = \<lparr>instance' = ''Logger''\<rparr>, chann = [0],
          heap = [\<lparr>ch_buf = [], ch_cap = 1, ch_closed = True\<rparr>],
          stdout = [''got message to log `b`\<newline>''], wg = 1\<rparr>"
proof -
  let ?cs = "[OpLog ''a'', OpSafeLog ''b'', OpInit, OpSafeLog ''c'']"
  let ?s' = "\<lparr>logger = \<lparr>instance' = ''Logger''\<rparr>, chann = [0],
          heap = [\<lparr>ch_buf = [], ch_cap = 1, ch_closed = True\<rparr>],
          stdout = [''Init\<newline>'', ''got message to log `b`\<newline>'',
                    ''got message to log `c`\<newline>''],
          wg = 0\<rparr>"
  let ?t = "\<lparr>logger = \<lparr>instance' = ''Logger''\<rparr>, chann = [0],
          heap = [\<lparr>ch_buf = [\<lparr>message = ''b''\<rparr>], ch_cap = 1, ch_closed = False\<rparr>],
          stdout = [], wg = 1\<rparr>"
  let ?t' = "\<lparr>logger = \<lparr>instance' = ''Logger''\<rparr>, chann = [0],
          heap = [\<lparr>ch_buf = [], ch_cap = 1, ch_closed = True\<rparr>],
          stdout = [''got message to log `b`\<newline>''], wg = 1\<rparr>"
  have h1: "run ?cs (initial\<lparr>wg := 1\<rparr>) = Inr ?s'"
    by (simp add: initial_def SafeLog_def Init_def Log_def make_chan_def chan_send_def
        chan_recv_def chan_close_def wg_Done_def wg_Add_def Let_def log_line_def)
  have h2: "drain [0] ?t = Inr ?t'"
    by (simp add: Log_def chan_recv_def chan_close_def Let_def log_line_def)
  from ready_only_by_Init_and_for_good [of ?cs "initial\<lparr>wg := 1\<rparr>" ?s' "[0]" ?t ?t'] h1 h2
  show ?thesis by simp
qed

section \<open>Faults\<close>

text \<open>
  \<^bold>\<open>C8.\<close> The claim is that no operation panics. \<^verbatim>\<open>Init\<close> does, in two ways. Called
  with a \<^verbatim>\<open>WaitGroup\<close> whose counter is zero, it panics in \<^verbatim>\<open>wg.Done()\<close>. And it is
  written to run once: it leaves the closed channels in \<^verbatim>\<open>chann\<close>, so a second run
  receives the zero value from the first of them and then closes it again.
\<close>

theorem Init_panics_on_zero_counter_and_on_second_run:
  "Init initial = Inl (Panic ''sync: negative WaitGroup counter'') \<and>
   run [OpSafeLog ''a'', OpInit, OpInit] (initial\<lparr>wg := 2\<rparr>) =
     Inl (Panic ''close of closed channel'')"
  by (simp add: initial_def SafeLog_def Init_def Log_def make_chan_def chan_send_def
      chan_recv_def chan_close_def wg_Done_def wg_Add_def Let_def)

text \<open>
  \<^bold>\<open>C8, as the code has it.\<close> Start on an uninitialized logger with no channel yet,
  make any calls of \<^verbatim>\<open>Log\<close> and \<^verbatim>\<open>SafeLog\<close> one after the other, let \<^verbatim>\<open>Init\<close> run
  exactly once, after they have returned and with a \<^verbatim>\<open>WaitGroup\<close> counter that is
  positive, and make any calls of \<^verbatim>\<open>Log\<close> and \<^verbatim>\<open>SafeLog\<close> one after the other when
  \<^verbatim>\<open>Init\<close> has returned. Then every call returns: none panics and none waits on a
  channel.
  \<^item> The calls before \<^verbatim>\<open>Init\<close> return and leave, for each \<^verbatim>\<open>SafeLog\<close>, one open channel
    of capacity 1 that holds exactly the one message sent to it.
  \<^item> \<^verbatim>\<open>Init\<close> returns: each receive found its value, and each \<^verbatim>\<open>close\<close> found an open
    channel. Afterwards every channel is empty and closed.
  \<^item> The calls after \<^verbatim>\<open>Init\<close> return and touch no channel, so each channel has been
    closed once.
  \<^item> In any state at all, \<^verbatim>\<open>SafeLog\<close> returns: its send goes into a channel that was
    made in the line before, with one free slot.
\<close>

theorem no_call_panics_or_blocks:
  assumes "\<not> ready s" and "chann s = []" and "heap s = []" and "0 < wg s"
    and "OpInit \<notin> set pre" and "OpInit \<notin> set post"
  shows "\<exists>s1 s2 s3.
           run pre s = Inr s1 \<and>
           heap s1 = map queued (deferred pre) \<and>
           chann s1 = [0 ..< length (deferred pre)] \<and>
           Init s1 = Inr s2 \<and>
           heap s2 = map (\<lambda>_. drained) (deferred pre) \<and>
           run post s2 = Inr s3 \<and>
           heap s3 = heap s2 \<and> chann s3 = chann s1 \<and>
           run (pre @ OpInit # post) s = Inr s3 \<and>
           (\<forall>msg t. \<exists>t'. SafeLog msg t = Inr (None, t'))"
proof -
  let ?s1 = "s\<lparr>chann := chann s @ addrs (length (heap s)) (length (deferred pre)),
               heap := heap s @ map queued (deferred pre)\<rparr>"
  let ?s2 = "?s1\<lparr>logger := \<lparr>instance' = ''Logger''\<rparr>,
                 heap := [] @ map (\<lambda>_. drained) (deferred pre),
                 stdout := stdout ?s1 @ ''Init\<newline>'' # map log_line (deferred pre),
                 wg := wg ?s1 - 1\<rparr>"
  let ?s3 = "?s2\<lparr>stdout := stdout ?s2 @ map log_line (payloads post)\<rparr>"
  have r1: "run pre s = Inr ?s1" by (rule run_before_Init [OF assms(1,5)])
  have r2: "Init ?s1 = Inr ?s2"
    by (rule Init_queued) (simp_all add: assms)
  have "ready ?s2" by (simp add: ready_def)
  then have r3: "run post ?s2 = Inr ?s3" using assms(6) by (rule run_after_Init)
  have r4: "run (pre @ OpInit # post) s = Inr ?s3"
    using r1 r2 r3 by (simp add: run_append)
  have "heap ?s1 = map queued (deferred pre)" using assms(3) by simp
  moreover have "chann ?s1 = [0 ..< length (deferred pre)]"
    using assms(2,3) by (simp add: addrs_upt)
  moreover have "heap ?s2 = map (\<lambda>_. drained) (deferred pre)" by simp
  moreover have "heap ?s3 = heap ?s2" "chann ?s3 = chann ?s1" by simp_all
  moreover have "\<forall>msg t. \<exists>t'. SafeLog msg t = Inr (None, t')"
    using SafeLog_returns by blast
  ultimately show ?thesis using r1 r2 r3 r4 by blast
qed

theorem no_call_panics_or_blocks_witness:
  "run ([OpSafeLog ''a'', OpLog ''x'', OpSafeLog ''b''] @ OpInit # [OpSafeLog ''c'', OpLog ''d''])
       (initial\<lparr>wg := 1\<rparr>) =
     Inr \<lparr>logger = \<lparr>instance' = ''Logger''\<rparr>, chann = [0, 1],
          heap = [\<lparr>ch_buf = [], ch_cap = 1, ch_closed = True\<rparr>,
                  \<lparr>ch_buf = [], ch_cap = 1, ch_closed = True\<rparr>],
          stdout = [''Init\<newline>'', ''got message to log `a`\<newline>'',
                    ''got message to log `b`\<newline>'', ''got message to log `c`\<newline>'',
                    ''got message to log `d`\<newline>''],
          wg = 0\<rparr>"
proof -
  let ?s = "initial\<lparr>wg := 1\<rparr>"
  let ?pre = "[OpSafeLog ''a'', OpLog ''x'', OpSafeLog ''b'']"
  let ?post = "[OpSafeLog ''c'', OpLog ''d'']"
  have h: "\<not> ready ?s" "chann ?s = []" "heap ?s = []" "0 < wg ?s"
    "OpInit \<notin> set ?pre" "OpInit \<notin> set ?post"
    by (simp_all add: initial_def ready_def)
  from no_call_panics_or_blocks [OF h] obtain s1 s2 s3 where
    a: "run ?pre ?s = Inr s1" and b: "Init s1 = Inr s2" and c: "run ?post s2 = Inr s3"
    and d: "run (?pre @ OpInit # ?post) ?s = Inr s3"
    by blast
  have "run (?pre @ OpInit # ?post) ?s =
     Inr \<lparr>logger = \<lparr>instance' = ''Logger''\<rparr>, chann = [0, 1],
          heap = [\<lparr>ch_buf = [], ch_cap = 1, ch_closed = True\<rparr>,
                  \<lparr>ch_buf = [], ch_cap = 1, ch_closed = True\<rparr>],
          stdout = [''Init\<newline>'', ''got message to log `a`\<newline>'',
                    ''got message to log `b`\<newline>'', ''got message to log `c`\<newline>'',
                    ''got message to log `d`\<newline>''],
          wg = 0\<rparr>"
    by (simp add: initial_def SafeLog_def Init_def Log_def make_chan_def chan_send_def
        chan_recv_def chan_close_def wg_Done_def wg_Add_def Let_def log_line_def)
  with d show ?thesis by simp
qed

section \<open>What the caller of SafeLog sees, and when the message is logged\<close>

text \<open>
  \<^bold>\<open>C7.\<close> The claim is that every entry queued by a call of \<^verbatim>\<open>SafeLog\<close> has a
  replay whose outcome is observed when \<^verbatim>\<open>Init\<close> replays it. It fails for a call that
  overlaps \<^verbatim>\<open>Init\<close>. A goroutine calls \<^verbatim>\<open>SafeLog("late")\<close> and finds the logger
  uninitialized; then the body of \<^verbatim>\<open>Init\<close> runs, over a queue that is still empty;
  then the call goes on, fills its channel, appends it to \<^verbatim>\<open>chann\<close> and returns nil.
  The entry is in the queue and its channel holds the message, but \<^verbatim>\<open>Init\<close> has
  finished: the only line printed is that of \<^verbatim>\<open>Init\<close>.
\<close>

theorem late_enqueue_never_replayed:
  "run_events [StepOf 0, InitBody, StepOf 0, StepOf 0, StepOf 0]
     ([(''late'', AtCheck)], initial\<lparr>wg := 1\<rparr>) =
   Inr ([(''late'', Returned None)],
        \<lparr>logger = \<lparr>instance' = ''Logger''\<rparr>, chann = [0],
         heap = [queued ''late''],
         stdout = [''Init\<newline>''],
         wg = 0\<rparr>)"
  by (simp add: sched_step_def initial_def make_chan_def chan_send_def chan_recv_def
      chan_close_def Init_def Log_def wg_Done_def wg_Add_def queued_def drained_def
      log_line_def Let_def)

lemma drain_append:
  "drain (xs @ ys) s = (case drain xs s of Inl f \<Rightarrow> Inl f | Inr s' \<Rightarrow> drain ys s')"
  by (induction xs arbitrary: s) (simp_all split: sum.splits prod.splits)

text \<open>
  \<^bold>\<open>C7, as the code has it.\<close> On an uninitialized logger whose queue holds the messages
  \<open>msgs\<close>, put there by calls that ran one after the other, a call \<^verbatim>\<open>SafeLog(msg)\<close>
  returns nil at once and prints nothing: the answer to the caller is given before the
  message is logged and cannot depend on the replay. When \<^verbatim>\<open>Init\<close> runs after the call
  has returned, with a \<^verbatim>\<open>WaitGroup\<close> counter that is positive, it replays the entry as
  the last one of its loop:
  \<^item> the loop first replays the entries queued earlier (state \<open>r0\<close>);
  \<^item> it receives the \<^verbatim>\<open>logDetail\<close> of \<open>msg\<close> from the channel of the entry (state \<open>r1\<close>);
  \<^item> it calls \<^verbatim>\<open>Log(msg)\<close> on \<open>r1\<close>, where the logger is ready: the outcome of this call
    is nil, with the line of \<open>msg\<close> printed after the line of \<^verbatim>\<open>Init\<close> and the lines of
    the earlier entries;
  \<^item> it goes on from the state that \<^verbatim>\<open>Log\<close> left and drops the nil: the value that
    \<^verbatim>\<open>Log\<close> returns is neither printed nor handed to anyone, so what can be observed
    of the replay is the printed line;
  \<^item> it closes the channel (state \<open>r2\<close>) and, the loop being over, calls \<^verbatim>\<open>wg.Done()\<close>.
\<close>

theorem queued_call_answered_before_replay:
  assumes "\<not> ready s" and "heap s = map queued msgs" and "chann s = [0 ..< length msgs]"
    and "0 < wg s"
  shows "\<exists>s1 r0 r1 r2 s2.
           SafeLog msg s = Inr (None, s1) \<and> stdout s1 = stdout s \<and>
           drain [0 ..< length msgs]
             (s1\<lparr>stdout := stdout s1 @ [''Init\<newline>''],
                 logger := \<lparr>instance' = ''Logger''\<rparr>\<rparr>) = Inr r0 \<and>
           chan_recv (length msgs) r0 = Inr (\<lparr>message = msg\<rparr>, r1) \<and>
           stdout r1 = stdout s @ ''Init\<newline>'' # map log_line msgs \<and>
           Log msg r1 = (None, r1\<lparr>stdout := stdout r1 @ [log_line msg]\<rparr>) \<and>
           chan_close (length msgs) (snd (Log msg r1)) = Inr r2 \<and>
           wg_Done r2 = Inr s2 \<and>
           Init s1 = Inr s2 \<and>
           stdout s2 = stdout s @ ''Init\<newline>'' # map log_line msgs @ [log_line msg]"
proof -
  let ?n = "length msgs"
  let ?s1 = "s\<lparr>heap := heap s @ [queued msg], chann := chann s @ [length (heap s)]\<rparr>"
  let ?i = "?s1\<lparr>stdout := stdout ?s1 @ [''Init\<newline>''],
                logger := \<lparr>instance' = ''Logger''\<rparr>\<rparr>"
  let ?r0 = "?i\<lparr>heap := [] @ map (\<lambda>_. drained) msgs @ [queued msg],
                stdout := stdout ?i @ map log_line msgs\<rparr>"
  let ?r1 = "?r0\<lparr>heap := map (\<lambda>_. drained) msgs @ [(queued msg)\<lparr>ch_buf := []\<rparr>]\<rparr>"
  let ?r2 = "?r1\<lparr>stdout := stdout ?r1 @ [log_line msg],
                 heap := map (\<lambda>_. drained) msgs @ [drained]\<rparr>"
  let ?s2 = "?r2\<lparr>wg := wg s - 1\<rparr>"
  have a: "SafeLog msg s = Inr (None, ?s1)" by (rule SafeLog_not_ready [OF assms(1)])
  have ri: "ready ?i" by (simp add: ready_def)
  have hi: "heap ?i = [] @ map queued msgs @ [queued msg]" using assms(2) by simp
  have "drain (addrs (length ([] :: chan list)) ?n) ?i = Inr ?r0"
    by (rule drain_queued [OF ri hi])
  then have b: "drain [0 ..< ?n] ?i = Inr ?r0" by (simp add: addrs_upt)
  have c: "chan_recv ?n ?r0 = Inr (\<lparr>message = msg\<rparr>, ?r1)"
    by (simp add: chan_recv_def Let_def nth_append list_update_append queued_def)
  have r1: "ready ?r1" by (simp add: ready_def)
  have d: "Log msg ?r1 = (None, ?r1\<lparr>stdout := stdout ?r1 @ [log_line msg]\<rparr>)"
    by (rule Log_ready [OF r1])
  have e: "chan_close ?n (snd (Log msg ?r1)) = Inr ?r2"
    unfolding d
    by (simp add: chan_close_def Let_def nth_append list_update_append queued_def drained_def)
  have f: "wg_Done ?r2 = Inr ?s2" using assms(4) by (simp add: wg_Done_def wg_Add_def)
  have ch: "chann ?i = [0 ..< ?n] @ [?n]" using assms(2,3) by simp
  have "drain [?n] ?r0 = Inr ?r2" using c e by simp
  then have "drain (chann ?i) ?i = Inr ?r2" unfolding ch drain_append b by simp
  then have g: "Init ?s1 = Inr ?s2" using f by (simp add: Init_def Let_def)
  have h1: "stdout ?s1 = stdout s" by simp
  have h2: "stdout ?r1 = stdout s @ ''Init\<newline>'' # map log_line msgs" by simp
  have h3: "stdout ?s2 = stdout s @ ''Init\<newline>'' # map log_line msgs @ [log_line msg]"
    by simp
  from a h1 b c h2 d e f g h3 show ?thesis by blast
qed

theorem queued_call_answered_before_replay_witness:
  "\<exists>s1 r1 s2.
     SafeLog ''b'' (initial\<lparr>heap := [queued ''a''], chann := [0], wg := 1\<rparr>) = Inr (None, s1) \<and>
     stdout s1 = [] \<and>
     stdout r1 = [''Init\<newline>'', ''got message to log `a`\<newline>''] \<and>
     Log ''b'' r1 = (None, r1\<lparr>stdout := [''Init\<newline>'', ''got message to log `a`\<newline>'',
                                           ''got message to log `b`\<newline>'']\<rparr>) \<and>
     Init s1 = Inr s2 \<and>
     stdout s2 = [''Init\<newline>'', ''got message to log `a`\<newline>'',
                  ''got message to log `b`\<newline>'']"
proof -
  let ?s = "initial\<lparr>heap := [queued ''a''], chann := [0], wg := 1\<rparr>"
  have h: "\<not> ready ?s" "heap ?s = map queued [''a'']" "chann ?s = [0 ..< length [''a'']]"
    "0 < wg ?s"
    by (simp_all add: initial_def ready_def)
  from queued_call_answered_before_replay [OF h, of "''b''"] obtain s1 r1 s2 where
    a: "SafeLog ''b'' ?s = Inr (None, s1)" and b: "stdout s1 = stdout ?s" and
    r: "stdout r1 = stdout ?s @ ''Init\<newline>'' # map log_line [''a'']" and
    l: "Log ''b'' r1 = (None, r1\<lparr>stdout := stdout r1 @ [log_line ''b'']\<rparr>)" and
    c: "Init s1 = Inr s2" and
    d: "stdout s2 = stdout ?s @ ''Init\<newline>'' # map log_line [''a''] @ [log_line ''b'']"
    by blast
  have "stdout s1 = []" using b by (simp add: initial_def)
  moreover have r': "stdout r1 = [''Init\<newline>'', ''got message to log `a`\<newline>'']"
    using r by (simp add: initial_def log_line_def)
  moreover have "Log ''b'' r1 =
      (None, r1\<lparr>stdout := [''Init\<newline>'', ''got message to log `a`\<newline>'',
                             ''got message to log `b`\<newline>'']\<rparr>)"
    using l unfolding r' by (simp add: log_line_def)
  moreover have "stdout s2 = [''Init\<newline>'', ''got message to log `a`\<newline>'',
                  ''got message to log `b`\<newline>'']"
    using d by (simp add: initial_def log_line_def)
  ultimately show ?thesis using a c by blast
qed

section \<open>The run of main\<close>

lemma loop_body_not_ready:
  "\<not> ready s \<Longrightarrow>
   loop_body i s =
     Inr (s\<lparr>stdout := stdout s @
              [''Error on caller1 '' @ itoa (i + 1) @
               '': logger instance not initialized\<newline>''],
            heap := heap s @ [queued (''func: caller2 value-'' @ itoa (i + 1))],
            chann := chann s @ [length (heap s)]\<rparr>)"
  by (simp add: loop_body_def Caller1_def Caller2_def Log_not_ready SafeLog_not_ready
      NotInitialized_def)

text \<open>
  \<^bold>\<open>C6.\<close> \<^verbatim>\<open>main\<close>, with its loop finished before \<^verbatim>\<open>Init\<close> wakes up, returns, and its
  output is the eleven lines that the README shows. The five lines
  "Error on caller1 k: logger instance not initialized" are printed because each call of
  \<^verbatim>\<open>Caller1\<close> returned that error; no line "Error on caller2" is printed because each
  call of \<^verbatim>\<open>Caller2\<close> returned nil, and it returned without a line of \<^verbatim>\<open>Log\<close> being
  printed. After the line of \<^verbatim>\<open>Init\<close> come exactly five lines of \<^verbatim>\<open>Log\<close>, with the
  messages of the five calls of \<^verbatim>\<open>Caller2\<close> in the order of the calls. At the end the
  five channels are empty and closed and the \<^verbatim>\<open>WaitGroup\<close> counter is zero.
\<close>

theorem main_output:
  "main =
     Inr \<lparr>logger = \<lparr>instance' = ''Logger''\<rparr>,
          chann = [0, 1, 2, 3, 4],
          heap = [drained, drained, drained, drained, drained],
          stdout =
            [''Error on caller1 1: logger instance not initialized\<newline>'',
             ''Error on caller1 2: logger instance not initialized\<newline>'',
             ''Error on caller1 3: logger instance not initialized\<newline>'',
             ''Error on caller1 4: logger instance not initialized\<newline>'',
             ''Error on caller1 5: logger instance not initialized\<newline>'',
             ''Init\<newline>'',
             ''got message to log `func: caller2 value-1`\<newline>'',
             ''got message to log `func: caller2 value-2`\<newline>'',
             ''got message to log `func: caller2 value-3`\<newline>'',
             ''got message to log `func: caller2 value-4`\<newline>'',
             ''got message to log `func: caller2 value-5`\<newline>''],
          wg = 0\<rparr>"
proof -
  let ?m = "\<lambda>k. ''func: caller2 value-'' @ k"
  let ?e = "\<lambda>k. ''Error on caller1 '' @ k @ '': logger instance not initialized\<newline>''"
  let ?s1 = "\<lparr>logger = \<lparr>instance' = []\<rparr>,
          chann = [0, 1, 2, 3, 4],
          heap = map queued [?m ''1'', ?m ''2'', ?m ''3'', ?m ''4'', ?m ''5''],
          stdout = [?e ''1'', ?e ''2'', ?e ''3'', ?e ''4'', ?e ''5''],
          wg = 1\<rparr>"
  have digits: "itoa 1 = ''1''" "itoa 2 = ''2''" "itoa 3 = ''3''" "itoa 4 = ''4''"
    "itoa 5 = ''5''"
    by (simp_all add: itoa_def utoa.simps)
  have start: "wg_Add 1 initial = Inr (initial\<lparr>wg := 1\<rparr>)"
    by (simp add: wg_Add_def initial_def)
  have loop: "main_loop 0 (initial\<lparr>wg := 1\<rparr>) = Inr ?s1"
    by (simp add: main_loop.simps loop_body_not_ready digits ready_def initial_def)
  have init: "Init ?s1 =
      Inr (?s1\<lparr>logger := \<lparr>instance' = ''Logger''\<rparr>,
               heap := [] @ map (\<lambda>_. drained) [?m ''1'', ?m ''2'', ?m ''3'', ?m ''4'', ?m ''5''],
               stdout := stdout ?s1 @ ''Init\<newline>'' #
                 map log_line [?m ''1'', ?m ''2'', ?m ''3'', ?m ''4'', ?m ''5''],
               wg := wg ?s1 - 1\<rparr>)"
    by (rule Init_queued) simp_all
  show ?thesis
    unfolding main_def start sum.case loop init
    by (simp add: wg_Wait_def log_line_def)
qed

section \<open>Overlapping calls of SafeLog\<close>

text \<open>
  \<^bold>\<open>C9.\<close> The claim is that every access to \<^verbatim>\<open>logger\<close> and \<^verbatim>\<open>chann\<close> is synchronized,
  so that two enqueues at the same time cannot overwrite each other. The source has no
  synchronization, and they can. Two goroutines call \<^verbatim>\<open>SafeLog("a")\<close> and
  \<^verbatim>\<open>SafeLog("b")\<close> on the initial state; each finds the logger uninitialized, fills its
  channel and reads the empty \<^verbatim>\<open>chann\<close>, and then each assigns its own one-element
  slice. Both calls return nil, but \<^verbatim>\<open>chann\<close> holds the channel of "b" alone, and a
  run of \<^verbatim>\<open>Init\<close> afterwards logs "b" and never "a".
\<close>

theorem overlapping_SafeLog_loses_entry:
  "run_sched [0, 0, 0, 1, 1, 1, 0, 1] ([(''a'', AtCheck), (''b'', AtCheck)], initial) =
     Inr ([(''a'', Returned None), (''b'', Returned None)],
          initial\<lparr>chann := [1], heap := [queued ''a'', queued ''b'']\<rparr>) \<and>
   Init (initial\<lparr>chann := [1], heap := [queued ''a'', queued ''b''], wg := 1\<rparr>) =
     Inr (initial\<lparr>logger := \<lparr>instance' = ''Logger''\<rparr>, chann := [1],
                  heap := [queued ''a'', drained],
                  stdout := [''Init\<newline>'', ''got message to log `b`\<newline>'']\<rparr>)"
  by (simp add: sched_step_def initial_def make_chan_def chan_send_def chan_recv_def
      chan_close_def Init_def Log_def wg_Done_def wg_Add_def queued_def drained_def
      log_line_def Let_def)

text \<open>
  \<^bold>\<open>C9, as the code has it.\<close> Reads and writes of \<^verbatim>\<open>logger\<close> and \<^verbatim>\<open>chann\<close> are plain
  accesses. A call of \<^verbatim>\<open>SafeLog\<close> whose steps are not interleaved with the steps of
  another goroutine does what \<^verbatim>\<open>SafeLog\<close> does when it runs alone, whatever the other
  goroutines have done before and wherever they stand: so before \<^verbatim>\<open>Init\<close> it appends
  its own channel to \<^verbatim>\<open>chann\<close> and keeps every entry that was there.
\<close>

theorem uninterrupted_SafeLog_is_SafeLog:
  assumes "i < length ts" and "ts ! i = (msg, AtCheck)"
  shows "run_sched [i, i, i, i] (ts, s) =
           (case SafeLog msg s of
              Inl f \<Rightarrow> Inl f
            | Inr (err, s') \<Rightarrow> Inr (ts[i := (msg, Returned err)], s')) \<and>
         (\<not> ready s \<longrightarrow>
            run_sched [i, i, i, i] (ts, s) =
              Inr (ts[i := (msg, Returned None)],
                   s\<lparr>heap := heap s @ [queued msg],
                     chann := chann s @ [length (heap s)]\<rparr>))"
  using assms
  by (simp add: sched_step_def SafeLog_def Log_def ready_def make_chan_def chan_send_def
      queued_def Let_def)

theorem uninterrupted_SafeLog_is_SafeLog_witness:
  "run_sched [1, 1, 1, 1]
     ([(''a'', Returned None), (''b'', AtCheck)],
      initial\<lparr>heap := [queued ''a''], chann := [0]\<rparr>) =
   Inr ([(''a'', Returned None), (''b'', Returned None)],
        initial\<lparr>heap := [queued ''a'', queued ''b''], chann := [0, 1]\<rparr>)"
proof -
  let ?ts = "[(''a'', Returned None), (''b'', AtCheck)]"
  let ?s = "initial\<lparr>heap := [queued ''a''], chann := [0]\<rparr>"
  have h: "1 < length ?ts" "?ts ! 1 = (''b'', AtCheck)"
    by simp_all
  have n: "\<not> ready ?s" by (simp add: ready_def initial_def)
  from uninterrupted_SafeLog_is_SafeLog [OF h, of ?s] n
  have a: "run_sched [1, 1, 1, 1] (?ts, ?s) =
             Inr (?ts[1 := (''b'', Returned None)],
                  ?s\<lparr>heap := heap ?s @ [queued ''b''],
                     chann := chann ?s @ [length (heap ?s)]\<rparr>)"
    by blast
  have b: "(?ts[1 := (''b'', Returned None)],
            ?s\<lparr>heap := heap ?s @ [queued ''b''], chann := chann ?s @ [length (heap ?s)]\<rparr>) =
           ([(''a'', Returned None), (''b'', Returned None)],
            initial\<lparr>heap := [queued ''a'', queued ''b''], chann := [0, 1]\<rparr>)"
    by (simp add: initial_def)
  show ?thesis unfolding a b ..
qed


end
